theory Spec2Isabelle
  imports Main "HOL-Library.AList"
begin

section \<open>SyncUser: the data model of sync\_user.cpp\<close>

text \<open>
  A \<open>SyncSession\<close> object is owned outside the user; the user only holds weak
  references to it. A session is modelled by its object identity. What a call observes
  of the sessions (whether a weak reference still resolves, \<open>is_in_error_state()\<close>,
  \<open>config().realm_url\<close>) is the \<open>session_world\<close>, a snapshot taken for the
  duration of one call.
\<close>

type_synonym session = nat

record session_world =
  expired :: "session \<Rightarrow> bool"
  is_in_error_state :: "session \<Rightarrow> bool"
  realm_url :: "session \<Rightarrow> string"

text \<open>\<open>std::weak_ptr::lock()\<close>: the strong handle, or nothing once the session is gone.\<close>

definition lock :: "session_world \<Rightarrow> session \<Rightarrow> session option" where
  "lock w wk = (if expired w wk then None else Some wk)"

text \<open>
  \<open>m_sessions\<close> and \<open>m_waiting_sessions\<close> map a realm URL to a weak reference. They
  are association lists whose order stands for the iteration order of the container;
  \<open>find\<close> is \<open>map_of\<close>, \<open>erase\<close> is \<open>AList.delete\<close>, and \<open>m[k] = v\<close> is
  \<open>AList.update\<close> (overwrite in place, or a new entry).
\<close>

type_synonym session_map = "(string \<times> session) list"

datatype State = LoggedOut | Active | Error

record sync_user =
  m_state :: State
  m_server_url :: string
  m_is_admin :: bool
  m_refresh_token :: string
  m_identity :: string
  m_sessions :: session_map
  m_waiting_sessions :: session_map

text \<open>
  The calls a member function makes on its collaborators, and the points where it takes
  and gives back \<open>m_mutex\<close>, in program order. On a session these are
  \<open>revive_if_needed\<close>, \<open>log_out()\<close>, \<open>bind_with_admin_token(token, url)\<close> and
  the two queries \<open>is_in_error_state()\<close> and \<open>config()\<close>; on the metadata store
  they are the two updates run through \<open>perform_metadata_update\<close>.
\<close>

datatype event =
    Lock
  | Unlock
  | ReviveIfNeeded session
  | SessionLogOut session
  | BindWithAdminToken session string string
  | IsInErrorState session
  | SessionConfig session
  | MetadataSetState string "string option" string
  | MetadataMarkForRemoval string

datatype error = InvalidArgument

section \<open>The member functions\<close>

text \<open>The constructor: the user starts Active with empty maps.\<close>

definition SyncUser :: "string \<Rightarrow> string \<Rightarrow> string option \<Rightarrow> bool \<Rightarrow> sync_user \<times> event list" where
  "SyncUser refresh_token identity server_url is_admin =
     (\<lparr>m_state = Active,
       m_server_url = (case server_url of None \<Rightarrow> [] | Some s \<Rightarrow> s),
       m_is_admin = is_admin,
       m_refresh_token = refresh_token,
       m_identity = identity,
       m_sessions = [],
       m_waiting_sessions = []\<rparr>,
      if \<not> is_admin then [MetadataSetState identity server_url refresh_token] else [])"

text \<open>
  The loop of \<open>all_sessions\<close>: \<open>kept\<close> holds the entries already passed over and
  left in the map, \<open>sessions\<close> the result so far; an entry that does not resolve, or
  whose session is in the error state, is erased. \<open>calls\<close> collects the
  \<open>is_in_error_state()\<close> queries, one on every session that resolves.
\<close>

fun all_sessions_loop ::
  "session_world \<Rightarrow> session_map \<Rightarrow> session_map \<Rightarrow> session list \<Rightarrow> event list
     \<Rightarrow> session_map \<times> session list \<times> event list" where
  "all_sessions_loop w kept [] sessions calls = (kept, sessions, calls)"
| "all_sessions_loop w kept ((url, wk) # rest) sessions calls =
     (case lock w wk of
        Some ptr_to_session \<Rightarrow>
          if \<not> is_in_error_state w ptr_to_session
          then all_sessions_loop w (kept @ [(url, wk)]) rest (sessions @ [ptr_to_session])
                 (calls @ [IsInErrorState ptr_to_session])
          else all_sessions_loop w kept rest sessions (calls @ [IsInErrorState ptr_to_session])
      | None \<Rightarrow> all_sessions_loop w kept rest sessions calls)"

definition all_sessions :: "session_world \<Rightarrow> sync_user \<Rightarrow> session list \<times> sync_user \<times> event list" where
  "all_sessions w u =
     (if m_state u = Error then ([], u, [Lock, Unlock])
      else
        (let (m, sessions, calls) = all_sessions_loop w [] (m_sessions u) [] []
         in (sessions, u\<lparr>m_sessions := m\<rparr>, [Lock] @ calls @ [Unlock])))"

definition session_for_url :: "session_world \<Rightarrow> sync_user \<Rightarrow> string \<Rightarrow> session option \<times> sync_user \<times> event list" where
  "session_for_url w u url =
     (if m_state u = Error then (None, u, [Lock, Unlock])
      else
        (case map_of (m_sessions u) url of
           None \<Rightarrow> (None, u, [Lock, Unlock])
         | Some wk \<Rightarrow>
             (case lock w wk of
                None \<Rightarrow> (None, u\<lparr>m_sessions := AList.delete url (m_sessions u)\<rparr>, [Lock, Unlock])
              | Some locked \<Rightarrow> (Some locked, u, [Lock, Unlock]))))"

text \<open>
  The loop of \<open>update_refresh_token\<close> over \<open>m_waiting_sessions\<close>: a reference that
  resolves is stored in \<open>m_sessions\<close> and appended to \<open>sessions_to_revive\<close>.
\<close>

fun revive_loop ::
  "session_world \<Rightarrow> session_map \<Rightarrow> session_map \<Rightarrow> session list \<Rightarrow> session_map \<times> session list" where
  "revive_loop w [] sessions sessions_to_revive = (sessions, sessions_to_revive)"
| "revive_loop w ((url, wk) # rest) sessions sessions_to_revive =
     (case lock w wk of
        Some ptr \<Rightarrow> revive_loop w rest (AList.update url ptr sessions) (sessions_to_revive @ [ptr])
      | None \<Rightarrow> revive_loop w rest sessions sessions_to_revive)"

definition update_refresh_token :: "session_world \<Rightarrow> sync_user \<Rightarrow> string \<Rightarrow> sync_user \<times> event list" where
  "update_refresh_token w u token =
     (case m_state u of
        Error \<Rightarrow> (u, [Lock, Unlock])
      | Active \<Rightarrow>
          (let u1 = u\<lparr>m_refresh_token := token\<rparr>
           in (u1,
               [Lock]
               @ (if \<not> m_is_admin u1
                  then [MetadataSetState (m_identity u1) (Some (m_server_url u1)) token] else [])
               @ [Unlock]))
      | LoggedOut \<Rightarrow>
          (let (sessions, sessions_to_revive) =
                 revive_loop w (m_waiting_sessions u) (m_sessions u) [];
               u1 = u\<lparr>m_refresh_token := token, m_state := Active,
                       m_sessions := sessions, m_waiting_sessions := []\<rparr>
           in (u1,
               [Lock]
               @ (if \<not> m_is_admin u1
                  then [MetadataSetState (m_identity u1) (Some (m_server_url u1)) token] else [])
               @ [Unlock]
               @ map ReviveIfNeeded sessions_to_revive)))"

text \<open>
  The loop of \<open>log_out\<close> over \<open>m_sessions\<close>: a session that resolves is told to log
  out and stored in \<open>m_waiting_sessions\<close>; \<open>calls\<close> collects the notifications.
\<close>

fun log_out_loop ::
  "session_world \<Rightarrow> session_map \<Rightarrow> session_map \<Rightarrow> event list \<Rightarrow> session_map \<times> event list" where
  "log_out_loop w [] waiting calls = (waiting, calls)"
| "log_out_loop w ((url, wk) # rest) waiting calls =
     (case lock w wk of
        Some ptr \<Rightarrow> log_out_loop w rest (AList.update url ptr waiting) (calls @ [SessionLogOut ptr])
      | None \<Rightarrow> log_out_loop w rest waiting calls)"

definition log_out :: "session_world \<Rightarrow> sync_user \<Rightarrow> sync_user \<times> event list" where
  "log_out w u =
     (if m_is_admin u then (u, [])
      else if m_state u = LoggedOut then (u, [Lock, Unlock])
      else
        (let (waiting, calls) = log_out_loop w (m_sessions u) (m_waiting_sessions u) [];
             u1 = u\<lparr>m_state := LoggedOut, m_waiting_sessions := waiting, m_sessions := []\<rparr>
         in (u1,
             [Lock] @ calls
             @ (if \<not> m_is_admin u1 then [MetadataMarkForRemoval (m_identity u1)] else [])
             @ [Unlock])))"

definition invalidate :: "sync_user \<Rightarrow> sync_user \<times> event list" where
  "invalidate u = (u\<lparr>m_state := Error\<rparr>, [Lock, Unlock])"

definition refresh_token :: "sync_user \<Rightarrow> string \<times> event list" where
  "refresh_token u = (m_refresh_token u, [Lock, Unlock])"

definition state :: "sync_user \<Rightarrow> State \<times> event list" where
  "state u = (m_state u, [Lock, Unlock])"

text \<open>The lambda of \<open>register_session\<close>: the URL has an entry that has not expired.\<close>

definition has_session :: "session_world \<Rightarrow> string \<Rightarrow> session_map \<Rightarrow> bool" where
  "has_session w url sessions =
     (case map_of sessions url of None \<Rightarrow> False | Some wk \<Rightarrow> \<not> expired w wk)"

text \<open>
  \<open>register_session\<close> reads \<open>session->config()\<close> for the URL before it takes the
  lock, and once more under the lock for the argument of the admin bind. It throws
  \<open>std::invalid_argument\<close> before it changes anything; the lock is given back by
  unwinding. The result carries the outcome, the user as the call leaves it, and the
  calls made.
\<close>

definition register_session ::
  "session_world \<Rightarrow> sync_user \<Rightarrow> session \<Rightarrow> (error + unit) \<times> sync_user \<times> event list" where
  "register_session w u session =
     (let url = realm_url w session in
      if has_session w url (m_sessions u) \<or> has_session w url (m_waiting_sessions u)
      then (Inl InvalidArgument, u, [SessionConfig session, Lock, Unlock])
      else
        (case m_state u of
           Active \<Rightarrow>
             (let u1 = u\<lparr>m_sessions := AList.update url session (m_sessions u)\<rparr>
              in if m_is_admin u1
                 then (Inr (), u1,
                       [SessionConfig session, Lock,
                        SessionConfig session,
                        BindWithAdminToken session (m_refresh_token u1) (realm_url w session),
                        Unlock])
                 else (Inr (), u1,
                       [SessionConfig session, Lock, Unlock, ReviveIfNeeded session]))
         | LoggedOut \<Rightarrow>
             (Inr (), u\<lparr>m_waiting_sessions := AList.update url session (m_waiting_sessions u)\<rparr>,
              [SessionConfig session, Lock, Unlock])
         | Error \<Rightarrow> (Inr (), u, [SessionConfig session, Lock, Unlock])))"


section \<open>Vocabulary of the properties\<close>

text \<open>An entry of a session map whose weak reference still resolves.\<close>

definition resolves :: "session_world \<Rightarrow> string \<times> session \<Rightarrow> bool" where
  "resolves w entry = (\<not> expired w (snd entry))"

text \<open>An entry that resolves to a session that is not in the fatal error state.\<close>

definition usable :: "session_world \<Rightarrow> string \<times> session \<Rightarrow> bool" where
  "usable w entry = (\<not> expired w (snd entry) \<and> \<not> is_in_error_state w (snd entry))"

text \<open>The sessions of the entries that resolve, in iteration order.\<close>

definition live_sessions :: "session_world \<Rightarrow> session_map \<Rightarrow> session list" where
  "live_sessions w m = map snd (filter (resolves w) m)"

text \<open>
  A well-formed session map: the keys are unique (it is a map), and every session is
  filed under its own realm URL (\<open>register_session\<close> is the only way in).
\<close>

definition wf_map :: "session_world \<Rightarrow> session_map \<Rightarrow> bool" where
  "wf_map w m = (distinct (map fst m) \<and> list_all (\<lambda>entry. realm_url w (snd entry) = fst entry) m)"

text \<open>
  The invariant of a user: both maps are well formed, the waiting map is empty while
  the user is Active, the active map is empty while it is LoggedOut, and one of the two
  is empty in the Error state.
\<close>

definition user_inv :: "session_world \<Rightarrow> sync_user \<Rightarrow> bool" where
  "user_inv w u =
     (wf_map w (m_sessions u) \<and> wf_map w (m_waiting_sessions u)
      \<and> (case m_state u of
           Active \<Rightarrow> m_waiting_sessions u = []
         | LoggedOut \<Rightarrow> m_sessions u = []
         | Error \<Rightarrow> m_sessions u = [] \<or> m_waiting_sessions u = []))"

text \<open>
  A call on one of the three capabilities of a session that act on it: revival, logout
  notification or admin bind. The queries \<open>is_in_error_state()\<close> and \<open>config()\<close>
  are not among them.
\<close>

fun is_session_call :: "event \<Rightarrow> bool" where
  "is_session_call (ReviveIfNeeded s) = True"
| "is_session_call (SessionLogOut s) = True"
| "is_session_call (BindWithAdminToken s token url) = True"
| "is_session_call e = False"

text \<open>The calls of a trace that are made while \<open>m_mutex\<close> is held.\<close>

fun under_lock :: "bool \<Rightarrow> event list \<Rightarrow> event list" where
  "under_lock held [] = []"
| "under_lock held (Lock # es) = under_lock True es"
| "under_lock held (Unlock # es) = under_lock False es"
| "under_lock held (e # es) = (if held then e # under_lock held es else under_lock held es)"

text \<open>
  The calls of a trace that are made after \<open>m_mutex\<close> has been given back (and
  before it is taken again); a call made before the lock was ever taken is not one.
\<close>

fun after_unlock :: "bool \<Rightarrow> event list \<Rightarrow> event list" where
  "after_unlock given_back [] = []"
| "after_unlock given_back (Lock # es) = after_unlock False es"
| "after_unlock given_back (Unlock # es) = after_unlock True es"
| "after_unlock given_back (e # es) =
     (if given_back then e # after_unlock given_back es else after_unlock given_back es)"

text \<open>
  The example used by the witnesses: session 1 is alive and healthy, session 2 has
  expired, session 3 is alive but in the fatal error state; their realm URLs are a, b
  and c, and any other session has realm URL d.
\<close>

definition world0 :: session_world where
  "world0 = \<lparr>expired = (\<lambda>s. s = 2), is_in_error_state = (\<lambda>s. s = 3),
             realm_url = (\<lambda>s. if s = 1 then ''a'' else if s = 2 then ''b''
                              else if s = 3 then ''c'' else ''d'')\<rparr>"

definition user_active :: sync_user where
  "user_active = \<lparr>m_state = Active, m_server_url = ''srv'', m_is_admin = False,
                  m_refresh_token = ''tok'', m_identity = ''id'',
                  m_sessions = [(''a'', 1), (''b'', 2), (''c'', 3)],
                  m_waiting_sessions = []\<rparr>"

definition user_logged_out :: sync_user where
  "user_logged_out = \<lparr>m_state = LoggedOut, m_server_url = ''srv'', m_is_admin = False,
                      m_refresh_token = ''tok'', m_identity = ''id'',
                      m_sessions = [],
                      m_waiting_sessions = [(''a'', 1), (''b'', 2), (''c'', 3)]\<rparr>"

section \<open>The loops\<close>

lemma all_sessions_loop_filter:
  "all_sessions_loop w kept m sessions calls =
     (kept @ filter (usable w) m, sessions @ map snd (filter (usable w) m),
      calls @ map IsInErrorState (live_sessions w m))"
  by (induction m arbitrary: kept sessions calls)
    (auto simp: lock_def usable_def live_sessions_def resolves_def)

lemma revive_loop_fold:
  "revive_loop w ws m r =
     (fold (\<lambda>(url, s). AList.update url s) (filter (resolves w) ws) m,
      r @ live_sessions w ws)"
  by (induction ws arbitrary: m r) (auto simp: lock_def resolves_def live_sessions_def)

lemma log_out_loop_fold:
  "log_out_loop w ss m c =
     (fold (\<lambda>(url, s). AList.update url s) (filter (resolves w) ss) m,
      c @ map SessionLogOut (live_sessions w ss))"
  by (induction ss arbitrary: m c) (auto simp: lock_def resolves_def live_sessions_def)

lemma map_of_fold_update:
  "distinct (map fst xs) \<Longrightarrow>
   map_of (fold (\<lambda>(url, s). AList.update url s) xs m) = map_of m ++ map_of xs"
proof (induction xs arbitrary: m)
  case Nil
  show ?case by simp
next
  case (Cons x xs)
  obtain a b where x: "x = (a, b)" by (cases x)
  from Cons.prems x have fresh: "a \<notin> dom (map_of xs)" and d: "distinct (map fst xs)"
    by (simp_all add: dom_map_of_conv_image_fst)
  have "map_of (fold (\<lambda>(url, s). AList.update url s) (x # xs) m)
          = map_of (AList.update a b m) ++ map_of xs"
    using Cons.IH [OF d] x by simp
  also have "\<dots> = (map_of m ++ map_of xs)(a \<mapsto> b)"
    using fresh by (simp add: update_conv' map_add_upd_left)
  also have "\<dots> = map_of m ++ map_of (x # xs)"
    using x by simp
  finally show ?case .
qed

lemma count_list_distinct:
  "distinct xs \<Longrightarrow> count_list xs x = (if x \<in> set xs then 1 else 0)"
  by (induction xs) auto

lemma wf_map_distinct_sessions:
  assumes "wf_map w m"
  shows "distinct (map snd m)"
proof -
  have "map fst m = map (realm_url w) (map snd m)"
    using assms by (induction m) (auto simp: wf_map_def)
  moreover have "distinct (map fst m)"
    using assms by (simp add: wf_map_def)
  ultimately show ?thesis
    by (metis distinct_map)
qed

lemma distinct_live_sessions:
  "wf_map w m \<Longrightarrow> distinct (live_sessions w m)"
  unfolding live_sessions_def
  by (intro distinct_map_filter wf_map_distinct_sessions)

lemma filter_session_call_revive [simp]:
  "filter is_session_call (map ReviveIfNeeded xs) = map ReviveIfNeeded xs"
  by (induction xs) auto

lemma filter_session_call_log_out [simp]:
  "filter is_session_call (map SessionLogOut xs) = map SessionLogOut xs"
  by (induction xs) auto

lemma under_lock_revive [simp]:
  "under_lock False (map ReviveIfNeeded xs) = []"
  by (induction xs) auto

lemma under_lock_log_out_prefix [simp]:
  "under_lock True (map SessionLogOut xs @ es) = map SessionLogOut xs @ under_lock True es"
  by (induction xs) auto

lemma under_lock_queries_prefix [simp]:
  "under_lock True (map IsInErrorState xs @ es) = map IsInErrorState xs @ under_lock True es"
  by (induction xs) auto

lemma after_unlock_revive [simp]:
  "after_unlock True (map ReviveIfNeeded xs) = map ReviveIfNeeded xs"
  by (induction xs) auto

lemma after_unlock_log_out_prefix [simp]:
  "after_unlock False (map SessionLogOut xs @ es) = after_unlock False es"
  by (induction xs) auto

lemma after_unlock_queries_prefix [simp]:
  "after_unlock False (map IsInErrorState xs @ es) = after_unlock False es"
  by (induction xs) auto

lemma count_revive_map:
  "count_list (map ReviveIfNeeded xs) (ReviveIfNeeded s) = count_list xs s"
  by (induction xs) auto

lemma count_log_out_map:
  "count_list (map SessionLogOut xs) (SessionLogOut s) = count_list xs s"
  by (induction xs) auto


section \<open>Claims\<close>

text \<open>
  C7. \<open>invalidate()\<close> changes only the state field, which becomes Error: both session
  maps, the refresh token, the identity, the server URL and the admin flag are what they
  were, whatever the prior state; neither map is cleared.
\<close>

theorem C7_invalidate_frame:
  "m_state (fst (invalidate u)) = Error
   \<and> m_sessions (fst (invalidate u)) = m_sessions u
   \<and> m_waiting_sessions (fst (invalidate u)) = m_waiting_sessions u
   \<and> m_refresh_token (fst (invalidate u)) = m_refresh_token u
   \<and> m_identity (fst (invalidate u)) = m_identity u
   \<and> m_server_url (fst (invalidate u)) = m_server_url u
   \<and> m_is_admin (fst (invalidate u)) = m_is_admin u
   \<and> sync_user.more (fst (invalidate u)) = sync_user.more u"
  by (simp add: invalidate_def)

theorem C7_invalidate_frame_witness:
  "m_state (fst (invalidate user_active)) = Error
   \<and> m_sessions (fst (invalidate user_active)) = [(''a'', 1), (''b'', 2), (''c'', 3)]
   \<and> m_waiting_sessions (fst (invalidate user_logged_out)) = [(''a'', 1), (''b'', 2), (''c'', 3)]
   \<and> m_refresh_token (fst (invalidate user_active)) = ''tok''"
  using C7_invalidate_frame [of user_active] C7_invalidate_frame [of user_logged_out]
  by (simp add: user_active_def user_logged_out_def)

text \<open>
  C4. In every state, \<open>register_session\<close> of a session whose realm URL already has a
  reference that resolves, in the active map or in the waiting map, fails with
  InvalidArgument and leaves the user as it was (state, token and both maps included).
\<close>

theorem C4_register_session_duplicate:
  assumes "(map_of (m_sessions u) (realm_url w s) = Some wk
            \<or> map_of (m_waiting_sessions u) (realm_url w s) = Some wk)"
    and "\<not> expired w wk"
  shows "fst (register_session w u s) = Inl InvalidArgument
         \<and> fst (snd (register_session w u s)) = u"
  using assms by (auto simp: register_session_def has_session_def Let_def)

theorem C4_register_session_duplicate_witness:
  "map_of (m_sessions user_active) (realm_url world0 1) = Some 1
   \<and> \<not> expired world0 1
   \<and> map_of (m_waiting_sessions user_logged_out) (realm_url world0 1) = Some 1
   \<and> fst (register_session world0 user_active 1) = Inl InvalidArgument
   \<and> fst (snd (register_session world0 user_active 1)) = user_active
   \<and> fst (register_session world0 user_logged_out 1) = Inl InvalidArgument
   \<and> fst (snd (register_session world0 user_logged_out 1)) = user_logged_out
   \<and> fst (register_session world0 (fst (invalidate user_active)) 1) = Inl InvalidArgument"
proof -
  have a: "map_of (m_sessions user_active) (realm_url world0 1) = Some 1"
    by (simp add: user_active_def world0_def)
  have b: "map_of (m_waiting_sessions user_logged_out) (realm_url world0 1) = Some 1"
    by (simp add: user_logged_out_def world0_def)
  have c: "map_of (m_sessions (fst (invalidate user_active))) (realm_url world0 1) = Some 1"
    by (simp add: user_active_def world0_def invalidate_def)
  have e: "\<not> expired world0 1"
    by (simp add: world0_def)
  show ?thesis
    using a b e
      C4_register_session_duplicate [OF disjI1 [OF a] e]
      C4_register_session_duplicate [OF disjI2 [OF b] e]
      C4_register_session_duplicate [OF disjI1 [OF c] e]
    by simp
qed

text \<open>
  C5. \<open>session_for_url(url)\<close>: in the Error state it returns none and leaves the user
  untouched; otherwise it returns none when the URL has no entry (user untouched),
  removes the entry and returns none when the entry's reference does not resolve (every
  other entry and field as before), and returns the resolved session when it does.
\<close>

theorem C5_session_for_url:
  "(m_state u = Error \<longrightarrow>
      fst (session_for_url w u url) = None \<and> fst (snd (session_for_url w u url)) = u)
   \<and> (m_state u \<noteq> Error \<and> map_of (m_sessions u) url = None \<longrightarrow>
      fst (session_for_url w u url) = None \<and> fst (snd (session_for_url w u url)) = u)
   \<and> (m_state u \<noteq> Error \<and> map_of (m_sessions u) url = Some wk \<and> expired w wk \<longrightarrow>
      fst (session_for_url w u url) = None
      \<and> map_of (m_sessions (fst (snd (session_for_url w u url)))) = (map_of (m_sessions u))(url := None)
      \<and> fst (snd (session_for_url w u url))
          = u\<lparr>m_sessions := m_sessions (fst (snd (session_for_url w u url)))\<rparr>)
   \<and> (m_state u \<noteq> Error \<and> map_of (m_sessions u) url = Some wk \<and> \<not> expired w wk \<longrightarrow>
      fst (session_for_url w u url) = Some wk \<and> fst (snd (session_for_url w u url)) = u)"
  by (auto simp: session_for_url_def lock_def delete_conv')

theorem C5_session_for_url_witness:
  "session_for_url world0 (fst (invalidate user_active)) ''a''
     = (None, fst (invalidate user_active), [Lock, Unlock])
   \<and> fst (session_for_url world0 user_active ''z'') = None
   \<and> fst (snd (session_for_url world0 user_active ''z'')) = user_active
   \<and> fst (session_for_url world0 user_active ''b'') = None
   \<and> map_of (m_sessions (fst (snd (session_for_url world0 user_active ''b''))))
        = (map_of (m_sessions user_active))(''b'' := None)
   \<and> m_sessions (fst (snd (session_for_url world0 user_active ''b''))) = [(''a'', 1), (''c'', 3)]
   \<and> fst (session_for_url world0 user_active ''a'') = Some 1
   \<and> fst (snd (session_for_url world0 user_active ''a'')) = user_active"
proof -
  have s1: "m_state (fst (invalidate user_active)) = Error"
    by (simp add: invalidate_def)
  have s2: "m_state user_active \<noteq> Error \<and> map_of (m_sessions user_active) ''z'' = None"
    by (simp add: user_active_def)
  have s3: "m_state user_active \<noteq> Error \<and> map_of (m_sessions user_active) ''b'' = Some 2
            \<and> expired world0 2"
    by (simp add: user_active_def world0_def)
  have s4: "m_state user_active \<noteq> Error \<and> map_of (m_sessions user_active) ''a'' = Some 1
            \<and> \<not> expired world0 1"
    by (simp add: user_active_def world0_def)
  have t: "snd (snd (session_for_url world0 (fst (invalidate user_active)) ''a'')) = [Lock, Unlock]"
    by (simp add: session_for_url_def invalidate_def)
  have m: "m_sessions (fst (snd (session_for_url world0 user_active ''b''))) = [(''a'', 1), (''c'', 3)]"
    by (simp add: session_for_url_def user_active_def world0_def lock_def AList.delete_eq)
  show ?thesis
    using s1 s2 s3 s4 t m
      C5_session_for_url [of "fst (invalidate user_active)" world0 "''a''"]
      C5_session_for_url [of user_active world0 "''z''"]
      C5_session_for_url [of user_active world0 "''b''" 2]
      C5_session_for_url [of user_active world0 "''a''" 1]
    by (simp add: prod_eq_iff)
qed


text \<open>
  C6. \<open>all_sessions()\<close>: in the Error state the result is empty and the user, both maps
  included, is untouched. Otherwise every entry of the active map is passed over once:
  the entries that resolve to a session not in the fatal error state stay, in order, and
  their sessions are the result; every other entry is removed; nothing else changes.
\<close>

theorem C6_all_sessions:
  "(m_state u = Error \<longrightarrow>
      fst (all_sessions w u) = [] \<and> fst (snd (all_sessions w u)) = u)
   \<and> (m_state u \<noteq> Error \<longrightarrow>
      fst (all_sessions w u) = map snd (filter (usable w) (m_sessions u))
      \<and> fst (snd (all_sessions w u)) = u\<lparr>m_sessions := filter (usable w) (m_sessions u)\<rparr>
      \<and> length (fst (all_sessions w u))
          + length (filter (\<lambda>entry. \<not> usable w entry) (m_sessions u))
          = length (m_sessions u))"
proof -
  have "length (filter (usable w) m) + length (filter (\<lambda>entry. \<not> usable w entry) m) = length m"
    for m :: session_map
    by (induction m) auto
  then show ?thesis
    by (simp add: all_sessions_def all_sessions_loop_filter)
qed

theorem C6_all_sessions_witness:
  "fst (all_sessions world0 (fst (invalidate user_active))) = []
   \<and> fst (snd (all_sessions world0 (fst (invalidate user_active)))) = fst (invalidate user_active)
   \<and> m_sessions (fst (snd (all_sessions world0 (fst (invalidate user_active)))))
       = [(''a'', 1), (''b'', 2), (''c'', 3)]
   \<and> fst (all_sessions world0 user_active) = [1]
   \<and> m_sessions (fst (snd (all_sessions world0 user_active))) = [(''a'', 1)]
   \<and> m_waiting_sessions (fst (snd (all_sessions world0 user_logged_out)))
       = [(''a'', 1), (''b'', 2), (''c'', 3)]"
proof -
  have s1: "m_state (fst (invalidate user_active)) = Error"
    by (simp add: invalidate_def)
  have s2: "m_state user_active \<noteq> Error" "m_state user_logged_out \<noteq> Error"
    by (simp_all add: user_active_def user_logged_out_def)
  have f: "filter (usable world0) (m_sessions user_active) = [(''a'', 1)]"
    by (simp add: user_active_def world0_def usable_def)
  have i: "m_sessions (fst (invalidate user_active)) = [(''a'', 1), (''b'', 2), (''c'', 3)]"
    by (simp add: invalidate_def user_active_def)
  have l: "m_waiting_sessions user_logged_out = [(''a'', 1), (''b'', 2), (''c'', 3)]"
    by (simp add: user_logged_out_def)
  show ?thesis
    using s1 s2 f i l
      C6_all_sessions [of "fst (invalidate user_active)" world0]
      C6_all_sessions [of user_active world0]
      C6_all_sessions [of user_logged_out world0]
    by simp
qed

text \<open>
  C10. Outside the Error state, \<open>session_for_url(url)\<close> returns the session of an
  active-map entry that resolves and leaves the map alone, whether or not the session
  reports the fatal error state; \<open>all_sessions()\<close> on the same user leaves such a
  failed session out of its result and removes its entry.
\<close>

theorem C10_session_for_url_ignores_error_state:
  assumes "m_state u \<noteq> Error"
    and "map_of (m_sessions u) url = Some s"
    and "\<not> expired w s"
  shows "fst (session_for_url w u url) = Some s
         \<and> fst (snd (session_for_url w u url)) = u
         \<and> (is_in_error_state w s \<longrightarrow>
              s \<notin> set (fst (all_sessions w u))
              \<and> (url, s) \<notin> set (m_sessions (fst (snd (all_sessions w u)))))"
  using assms
  by (auto simp: session_for_url_def lock_def all_sessions_def all_sessions_loop_filter usable_def)

theorem C10_session_for_url_ignores_error_state_witness:
  "m_state user_active \<noteq> Error
   \<and> map_of (m_sessions user_active) ''c'' = Some 3
   \<and> \<not> expired world0 3
   \<and> is_in_error_state world0 3
   \<and> fst (session_for_url world0 user_active ''c'') = Some 3
   \<and> fst (snd (session_for_url world0 user_active ''c'')) = user_active
   \<and> 3 \<notin> set (fst (all_sessions world0 user_active))
   \<and> (''c'', 3) \<notin> set (m_sessions (fst (snd (all_sessions world0 user_active))))"
proof -
  have a: "m_state user_active \<noteq> Error"
    by (simp add: user_active_def)
  have b: "map_of (m_sessions user_active) ''c'' = Some 3"
    by (simp add: user_active_def)
  have c: "\<not> expired world0 3" and d: "is_in_error_state world0 3"
    by (simp_all add: world0_def)
  show ?thesis
    using a b c d C10_session_for_url_ignores_error_state [OF a b c]
    by simp
qed

text \<open>
  C8. \<open>log_out()\<close> on an admin user, or on a user that is already LoggedOut, leaves the
  user exactly as it was and makes no call on any session. So a second \<open>log_out()\<close>
  right after a first one, on any user, changes nothing and notifies nobody.
\<close>

theorem C8_log_out_noop:
  "(m_is_admin u \<or> m_state u = LoggedOut \<longrightarrow>
      fst (log_out w u) = u \<and> filter is_session_call (snd (log_out w u)) = [])
   \<and> fst (log_out w' (fst (log_out w u))) = fst (log_out w u)
   \<and> filter is_session_call (snd (log_out w' (fst (log_out w u)))) = []"
proof -
  have noop: "fst (log_out v x) = x \<and> filter is_session_call (snd (log_out v x)) = []"
    if "m_is_admin x \<or> m_state x = LoggedOut" for v x
    using that by (auto simp: log_out_def)
  have "m_is_admin (fst (log_out w u)) \<or> m_state (fst (log_out w u)) = LoggedOut"
    by (auto simp: log_out_def split: prod.splits)
  from noop [OF this] noop [of u w] show ?thesis
    by blast
qed

theorem C8_log_out_noop_witness:
  "m_state user_logged_out = LoggedOut
   \<and> log_out world0 user_logged_out = (user_logged_out, [Lock, Unlock])
   \<and> m_is_admin (user_active\<lparr>m_is_admin := True\<rparr>)
   \<and> log_out world0 (user_active\<lparr>m_is_admin := True\<rparr>) = (user_active\<lparr>m_is_admin := True\<rparr>, [])
   \<and> filter is_session_call (snd (log_out world0 user_active)) = [SessionLogOut 1, SessionLogOut 3]
   \<and> fst (log_out world0 (fst (log_out world0 user_active))) = fst (log_out world0 user_active)
   \<and> filter is_session_call (snd (log_out world0 (fst (log_out world0 user_active)))) = []"
proof -
  have a: "m_state user_logged_out = LoggedOut"
    by (simp add: user_logged_out_def)
  have b: "m_is_admin (user_active\<lparr>m_is_admin := True\<rparr>)"
    by simp
  have t1: "snd (log_out world0 user_logged_out) = [Lock, Unlock]"
    by (simp add: log_out_def user_logged_out_def)
  have t2: "snd (log_out world0 (user_active\<lparr>m_is_admin := True\<rparr>)) = []"
    by (simp add: log_out_def)
  have t3: "filter is_session_call (snd (log_out world0 user_active))
              = [SessionLogOut 1, SessionLogOut 3]"
    by (simp add: log_out_def user_active_def world0_def lock_def)
  show ?thesis
    using a b t1 t2 t3
      C8_log_out_noop [of user_logged_out world0 world0]
      C8_log_out_noop [of "user_active\<lparr>m_is_admin := True\<rparr>" world0 world0]
      C8_log_out_noop [of user_active world0 world0]
    by (simp add: prod_eq_iff)
qed

text \<open>
  C1. The code at the input where the claim fails: a non-admin user is invalidated, so
  its state is Error; \<open>log_out()\<close> then sets the state to LoggedOut, and a following
  \<open>update_refresh_token\<close> sets it to Active.
\<close>

theorem C1_log_out_leaves_Error:
  "m_state (fst (invalidate user_active)) = Error
   \<and> m_state (fst (log_out world0 (fst (invalidate user_active)))) = LoggedOut
   \<and> m_state (fst (update_refresh_token world0
        (fst (log_out world0 (fst (invalidate user_active)))) ''tok2'')) = Active"
  by (simp add: invalidate_def log_out_def update_refresh_token_def user_active_def
      split: prod.splits)


text \<open>
  C2. On a LoggedOut user with a well-formed waiting map, \<open>update_refresh_token(t)\<close>
  stores \<open>t\<close>, sets the state to Active and empties the waiting map. The active map
  afterwards is the old one overridden by exactly the waiting entries that resolve; the
  calls on sessions are one \<open>revive_if_needed\<close> per resolving entry, so a session is
  revived once when it is one of those and never otherwise. Entries that do not resolve
  are neither moved nor revived. Nothing else changes.
\<close>

theorem C2_update_refresh_token_logged_out:
  assumes "m_state u = LoggedOut"
    and "wf_map w (m_waiting_sessions u)"
  shows "m_refresh_token (fst (update_refresh_token w u t)) = t
         \<and> m_state (fst (update_refresh_token w u t)) = Active
         \<and> m_waiting_sessions (fst (update_refresh_token w u t)) = []
         \<and> map_of (m_sessions (fst (update_refresh_token w u t)))
             = map_of (m_sessions u) ++ map_of (filter (resolves w) (m_waiting_sessions u))
         \<and> filter is_session_call (snd (update_refresh_token w u t))
             = map ReviveIfNeeded (live_sessions w (m_waiting_sessions u))
         \<and> (\<forall>s. count_list (snd (update_refresh_token w u t)) (ReviveIfNeeded s)
                = (if s \<in> set (live_sessions w (m_waiting_sessions u)) then 1 else 0))
         \<and> fst (update_refresh_token w u t)
             = u\<lparr>m_state := Active, m_refresh_token := t,
                  m_sessions := m_sessions (fst (update_refresh_token w u t)),
                  m_waiting_sessions := []\<rparr>"
proof -
  let ?live = "filter (resolves w) (m_waiting_sessions u)"
  let ?meta = "if \<not> m_is_admin u
               then [MetadataSetState (m_identity u) (Some (m_server_url u)) t] else []"
  have run: "update_refresh_token w u t =
      (u\<lparr>m_refresh_token := t, m_state := Active,
         m_sessions := fold (\<lambda>(url, s). AList.update url s) ?live (m_sessions u),
         m_waiting_sessions := []\<rparr>,
       [Lock] @ ?meta @ [Unlock] @ map ReviveIfNeeded (live_sessions w (m_waiting_sessions u)))"
    using assms(1) by (simp add: update_refresh_token_def revive_loop_fold)
  have keys: "distinct (map fst ?live)"
    using assms(2) by (simp add: wf_map_def distinct_map_filter)
  have moved: "map_of (fold (\<lambda>(url, s). AList.update url s) ?live (m_sessions u))
                 = map_of (m_sessions u) ++ map_of ?live"
    by (rule map_of_fold_update [OF keys])
  have once: "count_list (live_sessions w (m_waiting_sessions u)) s
                = (if s \<in> set (live_sessions w (m_waiting_sessions u)) then 1 else 0)" for s
    by (rule count_list_distinct [OF distinct_live_sessions [OF assms(2)]])
  have calls: "filter is_session_call (snd (update_refresh_token w u t))
                 = map ReviveIfNeeded (live_sessions w (m_waiting_sessions u))"
    by (simp add: run)
  have count: "count_list (snd (update_refresh_token w u t)) (ReviveIfNeeded s)
                 = count_list (live_sessions w (m_waiting_sessions u)) s" for s
    by (simp add: run count_revive_map)
  show ?thesis
    using moved calls by (simp add: count once) (simp add: run)
qed

theorem C2_update_refresh_token_logged_out_witness:
  "m_state user_logged_out = LoggedOut
   \<and> wf_map world0 (m_waiting_sessions user_logged_out)
   \<and> m_refresh_token (fst (update_refresh_token world0 user_logged_out ''tok2'')) = ''tok2''
   \<and> m_state (fst (update_refresh_token world0 user_logged_out ''tok2'')) = Active
   \<and> m_waiting_sessions (fst (update_refresh_token world0 user_logged_out ''tok2'')) = []
   \<and> map_of (m_sessions (fst (update_refresh_token world0 user_logged_out ''tok2'')))
        = map_of [(''a'', 1), (''c'', 3)]
   \<and> filter is_session_call (snd (update_refresh_token world0 user_logged_out ''tok2''))
        = [ReviveIfNeeded 1, ReviveIfNeeded 3]
   \<and> count_list (snd (update_refresh_token world0 user_logged_out ''tok2'')) (ReviveIfNeeded 1) = 1
   \<and> count_list (snd (update_refresh_token world0 user_logged_out ''tok2'')) (ReviveIfNeeded 2) = 0"
proof -
  have a: "m_state user_logged_out = LoggedOut"
    by (simp add: user_logged_out_def)
  have b: "wf_map world0 (m_waiting_sessions user_logged_out)"
    by (simp add: user_logged_out_def wf_map_def world0_def)
  have f: "filter (resolves world0) (m_waiting_sessions user_logged_out) = [(''a'', 1), (''c'', 3)]"
    by (simp add: user_logged_out_def world0_def resolves_def)
  have l: "live_sessions world0 (m_waiting_sessions user_logged_out) = [1, 3]"
    by (simp add: live_sessions_def f)
  have e: "m_sessions user_logged_out = []"
    by (simp add: user_logged_out_def)
  show ?thesis
    using a b C2_update_refresh_token_logged_out [OF a b, of "''tok2''"]
    by (simp add: f l e)
qed

text \<open>
  C3. On a non-admin Active user with a well-formed active map, \<open>log_out()\<close> sets the
  state to LoggedOut and empties the active map. The calls on sessions are one logout
  notification per entry that resolves (N of them for N live sessions), so a session is
  notified once when it is live and never otherwise; the waiting map afterwards is the
  old one overridden by those live entries; and \<open>all_sessions()\<close> on the resulting
  user is empty whatever the sessions do meanwhile.
\<close>

theorem C3_log_out_active:
  assumes "\<not> m_is_admin u"
    and "m_state u = Active"
    and "wf_map w (m_sessions u)"
  shows "m_state (fst (log_out w u)) = LoggedOut
         \<and> m_sessions (fst (log_out w u)) = []
         \<and> map_of (m_waiting_sessions (fst (log_out w u)))
             = map_of (m_waiting_sessions u) ++ map_of (filter (resolves w) (m_sessions u))
         \<and> filter is_session_call (snd (log_out w u))
             = map SessionLogOut (live_sessions w (m_sessions u))
         \<and> (\<forall>s. count_list (snd (log_out w u)) (SessionLogOut s)
                = (if s \<in> set (live_sessions w (m_sessions u)) then 1 else 0))
         \<and> (\<forall>w'. fst (all_sessions w' (fst (log_out w u))) = [])"
proof -
  let ?live = "filter (resolves w) (m_sessions u)"
  have run: "log_out w u =
      (u\<lparr>m_state := LoggedOut,
         m_waiting_sessions := fold (\<lambda>(url, s). AList.update url s) ?live (m_waiting_sessions u),
         m_sessions := []\<rparr>,
       [Lock] @ map SessionLogOut (live_sessions w (m_sessions u))
       @ [MetadataMarkForRemoval (m_identity u)] @ [Unlock])"
    using assms(1,2) by (simp add: log_out_def log_out_loop_fold)
  have keys: "distinct (map fst ?live)"
    using assms(3) by (simp add: wf_map_def distinct_map_filter)
  have moved: "map_of (fold (\<lambda>(url, s). AList.update url s) ?live (m_waiting_sessions u))
                 = map_of (m_waiting_sessions u) ++ map_of ?live"
    by (rule map_of_fold_update [OF keys])
  have once: "count_list (live_sessions w (m_sessions u)) s
                = (if s \<in> set (live_sessions w (m_sessions u)) then 1 else 0)" for s
    by (rule count_list_distinct [OF distinct_live_sessions [OF assms(3)]])
  have count: "count_list (snd (log_out w u)) (SessionLogOut s)
                 = count_list (live_sessions w (m_sessions u)) s" for s
    by (simp add: run count_log_out_map)
  have empty: "fst (all_sessions w' (fst (log_out w u))) = []" for w'
    by (simp add: run all_sessions_def)
  show ?thesis
    using moved empty by (simp add: count once) (simp add: run)
qed

theorem C3_log_out_active_witness:
  "\<not> m_is_admin user_active
   \<and> m_state user_active = Active
   \<and> wf_map world0 (m_sessions user_active)
   \<and> m_state (fst (log_out world0 user_active)) = LoggedOut
   \<and> m_sessions (fst (log_out world0 user_active)) = []
   \<and> map_of (m_waiting_sessions (fst (log_out world0 user_active)))
        = map_of [(''a'', 1), (''c'', 3)]
   \<and> filter is_session_call (snd (log_out world0 user_active))
        = [SessionLogOut 1, SessionLogOut 3]
   \<and> count_list (snd (log_out world0 user_active)) (SessionLogOut 3) = 1
   \<and> count_list (snd (log_out world0 user_active)) (SessionLogOut 2) = 0
   \<and> fst (all_sessions world0 (fst (log_out world0 user_active))) = []"
proof -
  have a: "\<not> m_is_admin user_active" and b: "m_state user_active = Active"
    by (simp_all add: user_active_def)
  have c: "wf_map world0 (m_sessions user_active)"
    by (simp add: user_active_def wf_map_def world0_def)
  have f: "filter (resolves world0) (m_sessions user_active) = [(''a'', 1), (''c'', 3)]"
    by (simp add: user_active_def world0_def resolves_def)
  have l: "live_sessions world0 (m_sessions user_active) = [1, 3]"
    by (simp add: live_sessions_def f)
  have e: "m_waiting_sessions user_active = []"
    by (simp add: user_active_def)
  show ?thesis
    using a b c C3_log_out_active [OF a b c]
    by (simp add: f l e)
qed


section \<open>The calls of every member function, in order\<close>

lemma trace_update_refresh_token:
  "snd (update_refresh_token w u t)
     = [Lock]
       @ (if m_state u \<noteq> Error \<and> \<not> m_is_admin u
          then [MetadataSetState (m_identity u) (Some (m_server_url u)) t] else [])
       @ [Unlock]
       @ map ReviveIfNeeded
           (if m_state u = LoggedOut then live_sessions w (m_waiting_sessions u) else [])"
  by (cases "m_state u") (simp_all add: update_refresh_token_def revive_loop_fold Let_def)

lemma trace_register_session:
  "snd (snd (register_session w u s))
     = [SessionConfig s, Lock]
       @ (if fst (register_session w u s) = Inr () \<and> m_state u = Active \<and> m_is_admin u
          then [SessionConfig s, BindWithAdminToken s (m_refresh_token u) (realm_url w s)]
          else [])
       @ [Unlock]
       @ (if fst (register_session w u s) = Inr () \<and> m_state u = Active \<and> \<not> m_is_admin u
          then [ReviveIfNeeded s] else [])"
  by (cases "m_state u") (simp_all add: register_session_def Let_def)

lemma trace_log_out:
  "snd (log_out w u)
     = (if m_is_admin u then []
        else [Lock]
             @ (if m_state u = LoggedOut then []
                else map SessionLogOut (live_sessions w (m_sessions u))
                     @ [MetadataMarkForRemoval (m_identity u)])
             @ [Unlock])"
  by (simp add: log_out_def log_out_loop_fold Let_def)

lemma trace_all_sessions:
  "snd (snd (all_sessions w u))
     = [Lock]
       @ (if m_state u = Error then []
          else map IsInErrorState (live_sessions w (m_sessions u)))
       @ [Unlock]"
  by (simp add: all_sessions_def all_sessions_loop_filter)

lemma trace_session_for_url:
  "snd (snd (session_for_url w u url)) = [Lock, Unlock]"
  by (simp add: session_for_url_def split: option.splits)

text \<open>
  C9, as the code has it. The first nine conjuncts give the whole sequence of lock
  operations and collaborator calls of every member function. Hence: every
  \<open>revive_if_needed\<close> call comes after the \<open>Unlock\<close>, on the sessions gathered while
  the lock was held (the waiting sessions that resolved, or the session being
  registered). The calls made while the lock is held are the metadata update of
  \<open>update_refresh_token\<close>; the admin bind of \<open>register_session\<close> with the
  \<open>config()\<close> read for its argument; the logout notifications and the metadata update
  of \<open>log_out\<close>, which holds the lock to its end; and the \<open>is_in_error_state()\<close>
  queries of \<open>all_sessions\<close>. \<open>session_for_url\<close>, \<open>invalidate\<close>,
  \<open>refresh_token\<close> and \<open>state\<close> make no call; the constructor and the first
  \<open>config()\<close> read of \<open>register_session\<close> run without the lock.
\<close>

theorem C9_calls_under_lock:
  "snd (update_refresh_token w u t)
     = [Lock]
       @ (if m_state u \<noteq> Error \<and> \<not> m_is_admin u
          then [MetadataSetState (m_identity u) (Some (m_server_url u)) t] else [])
       @ [Unlock]
       @ map ReviveIfNeeded
           (if m_state u = LoggedOut then live_sessions w (m_waiting_sessions u) else [])
   \<and> snd (snd (register_session w u s))
     = [SessionConfig s, Lock]
       @ (if fst (register_session w u s) = Inr () \<and> m_state u = Active \<and> m_is_admin u
          then [SessionConfig s, BindWithAdminToken s (m_refresh_token u) (realm_url w s)]
          else [])
       @ [Unlock]
       @ (if fst (register_session w u s) = Inr () \<and> m_state u = Active \<and> \<not> m_is_admin u
          then [ReviveIfNeeded s] else [])
   \<and> snd (log_out w u)
     = (if m_is_admin u then []
        else [Lock]
             @ (if m_state u = LoggedOut then []
                else map SessionLogOut (live_sessions w (m_sessions u))
                     @ [MetadataMarkForRemoval (m_identity u)])
             @ [Unlock])
   \<and> snd (snd (all_sessions w u))
     = [Lock]
       @ (if m_state u = Error then []
          else map IsInErrorState (live_sessions w (m_sessions u)))
       @ [Unlock]
   \<and> snd (snd (session_for_url w u url)) = [Lock, Unlock]
   \<and> snd (invalidate u) = [Lock, Unlock]
   \<and> snd (refresh_token u) = [Lock, Unlock]
   \<and> snd (state u) = [Lock, Unlock]
   \<and> snd (SyncUser tok ident srv adm)
     = (if \<not> adm then [MetadataSetState ident srv tok] else [])
   \<and> after_unlock False (snd (update_refresh_token w u t))
     = map ReviveIfNeeded
         (if m_state u = LoggedOut then live_sessions w (m_waiting_sessions u) else [])
   \<and> under_lock False (snd (update_refresh_token w u t))
     = (if m_state u \<noteq> Error \<and> \<not> m_is_admin u
        then [MetadataSetState (m_identity u) (Some (m_server_url u)) t] else [])
   \<and> after_unlock False (snd (snd (register_session w u s)))
     = (if fst (register_session w u s) = Inr () \<and> m_state u = Active \<and> \<not> m_is_admin u
        then [ReviveIfNeeded s] else [])
   \<and> under_lock False (snd (snd (register_session w u s)))
     = (if fst (register_session w u s) = Inr () \<and> m_state u = Active \<and> m_is_admin u
        then [SessionConfig s, BindWithAdminToken s (m_refresh_token u) (realm_url w s)]
        else [])
   \<and> after_unlock False (snd (log_out w u)) = []
   \<and> under_lock False (snd (log_out w u))
     = (if \<not> m_is_admin u \<and> m_state u \<noteq> LoggedOut
        then map SessionLogOut (live_sessions w (m_sessions u))
             @ [MetadataMarkForRemoval (m_identity u)]
        else [])
   \<and> after_unlock False (snd (snd (all_sessions w u))) = []
   \<and> under_lock False (snd (snd (all_sessions w u)))
     = (if m_state u = Error then []
        else map IsInErrorState (live_sessions w (m_sessions u)))"
proof -
  note tr = trace_update_refresh_token [of w u t] trace_register_session [of w u s]
    trace_log_out [of w u] trace_all_sessions [of w u] trace_session_for_url [of w u url]
  have simple: "snd (invalidate u) = [Lock, Unlock]" "snd (refresh_token u) = [Lock, Unlock]"
    "snd (state u) = [Lock, Unlock]"
    "snd (SyncUser tok ident srv adm) = (if \<not> adm then [MetadataSetState ident srv tok] else [])"
    by (simp_all add: invalidate_def refresh_token_def state_def SyncUser_def)
  have upd: "after_unlock False (snd (update_refresh_token w u t))
       = map ReviveIfNeeded
           (if m_state u = LoggedOut then live_sessions w (m_waiting_sessions u) else [])"
    "under_lock False (snd (update_refresh_token w u t))
       = (if m_state u \<noteq> Error \<and> \<not> m_is_admin u
          then [MetadataSetState (m_identity u) (Some (m_server_url u)) t] else [])"
    by (simp_all add: trace_update_refresh_token)
  have reg: "after_unlock False (snd (snd (register_session w u s)))
       = (if fst (register_session w u s) = Inr () \<and> m_state u = Active \<and> \<not> m_is_admin u
          then [ReviveIfNeeded s] else [])"
    "under_lock False (snd (snd (register_session w u s)))
       = (if fst (register_session w u s) = Inr () \<and> m_state u = Active \<and> m_is_admin u
          then [SessionConfig s, BindWithAdminToken s (m_refresh_token u) (realm_url w s)]
          else [])"
    by (simp_all add: trace_register_session)
  have out: "after_unlock False (snd (log_out w u)) = []"
    "under_lock False (snd (log_out w u))
       = (if \<not> m_is_admin u \<and> m_state u \<noteq> LoggedOut
          then map SessionLogOut (live_sessions w (m_sessions u))
               @ [MetadataMarkForRemoval (m_identity u)]
          else [])"
    by (simp_all add: trace_log_out)
  have alls: "after_unlock False (snd (snd (all_sessions w u))) = []"
    "under_lock False (snd (snd (all_sessions w u)))
       = (if m_state u = Error then []
          else map IsInErrorState (live_sessions w (m_sessions u)))"
    by (simp_all add: trace_all_sessions)
  from tr simple upd reg out alls show ?thesis
    by (intro conjI)
qed

theorem C9_calls_under_lock_witness:
  "snd (update_refresh_token world0 user_logged_out ''tok2'')
     = [Lock, MetadataSetState ''id'' (Some ''srv'') ''tok2'', Unlock,
        ReviveIfNeeded 1, ReviveIfNeeded 3]
   \<and> after_unlock False (snd (update_refresh_token world0 user_logged_out ''tok2''))
     = [ReviveIfNeeded 1, ReviveIfNeeded 3]
   \<and> under_lock False (snd (update_refresh_token world0 user_logged_out ''tok2''))
     = [MetadataSetState ''id'' (Some ''srv'') ''tok2'']
   \<and> snd (snd (register_session world0 (user_active\<lparr>m_is_admin := True\<rparr>) 4))
     = [SessionConfig 4, Lock, SessionConfig 4, BindWithAdminToken 4 ''tok'' ''d'', Unlock]
   \<and> snd (snd (register_session world0 user_active 4))
     = [SessionConfig 4, Lock, Unlock, ReviveIfNeeded 4]
   \<and> after_unlock False (snd (snd (register_session world0 user_active 4)))
     = [ReviveIfNeeded 4]
   \<and> under_lock False (snd (snd (register_session world0 user_active 4))) = []
   \<and> snd (log_out world0 user_active)
     = [Lock, SessionLogOut 1, SessionLogOut 3, MetadataMarkForRemoval ''id'', Unlock]
   \<and> snd (snd (all_sessions world0 user_active))
     = [Lock, IsInErrorState 1, IsInErrorState 3, Unlock]
   \<and> under_lock False (snd (snd (all_sessions world0 user_active)))
     = [IsInErrorState 1, IsInErrorState 3]"
proof -
  have l: "live_sessions world0 (m_waiting_sessions user_logged_out) = [1, 3]"
    "live_sessions world0 (m_sessions user_active) = [1, 3]"
    by (simp_all add: live_sessions_def user_logged_out_def user_active_def world0_def
        resolves_def)
  have r1: "fst (register_session world0 (user_active\<lparr>m_is_admin := True\<rparr>) 4) = Inr ()"
    by (simp add: register_session_def has_session_def user_active_def world0_def Let_def)
  have r2: "fst (register_session world0 user_active 4) = Inr ()"
    by (simp add: register_session_def has_session_def user_active_def world0_def Let_def)
  have f: "m_state user_logged_out = LoggedOut" "\<not> m_is_admin user_logged_out"
    "m_identity user_logged_out = ''id''" "m_server_url user_logged_out = ''srv''"
    "m_state user_active = Active" "\<not> m_is_admin user_active"
    "m_refresh_token user_active = ''tok''" "m_identity user_active = ''id''"
    "realm_url world0 4 = ''d''"
    by (simp_all add: user_logged_out_def user_active_def world0_def)
  show ?thesis
    using C9_calls_under_lock [of world0 user_logged_out "''tok2''" 4 "''a''" "''tok''" "''id''" None False]
      C9_calls_under_lock [of world0 "user_active\<lparr>m_is_admin := True\<rparr>" "''tok2''" 4 "''a''" "''tok''" "''id''" None False]
      C9_calls_under_lock [of world0 user_active "''tok2''" 4 "''a''" "''tok''" "''id''" None False]
    by (simp add: l r1 r2 f)
qed

text \<open>
  C9 as stated fails on \<open>log_out\<close>: on the example user the two logout notifications
  and the metadata update are made while the lock is held.
\<close>

theorem C9_log_out_notifies_under_lock:
  "under_lock False (snd (log_out world0 user_active))
     = [SessionLogOut 1, SessionLogOut 3, MetadataMarkForRemoval ''id'']"
  by (simp add: log_out_def user_active_def world0_def lock_def)


section \<open>The invariant behind the well-formedness hypotheses\<close>

lemma wf_map_Nil [simp]: "wf_map w []"
  by (simp add: wf_map_def)

lemma wf_map_filter: "wf_map w m \<Longrightarrow> wf_map w (filter P m)"
  by (induction m) (auto simp: wf_map_def)

lemma wf_map_delete: "wf_map w m \<Longrightarrow> wf_map w (AList.delete k m)"
  by (simp add: AList.delete_eq wf_map_filter)

lemma list_all_update:
  "list_all P m \<Longrightarrow> P (k, s) \<Longrightarrow> list_all P (AList.update k s m)"
  by (induction m) auto

lemma wf_map_update:
  "wf_map w m \<Longrightarrow> realm_url w s = k \<Longrightarrow> wf_map w (AList.update k s m)"
  by (simp add: wf_map_def distinct_update list_all_update)

lemma wf_map_fold_update:
  "wf_map w m \<Longrightarrow> wf_map w xs \<Longrightarrow>
   wf_map w (fold (\<lambda>(url, s). AList.update url s) xs m)"
proof (induction xs arbitrary: m)
  case Nil
  then show ?case by simp
next
  case (Cons x xs)
  obtain k s where x: "x = (k, s)" by (cases x)
  from Cons.prems(2) have url: "realm_url w s = k" and rest: "wf_map w xs"
    unfolding x wf_map_def by simp_all
  have "wf_map w (AList.update k s m)"
    by (rule wf_map_update [OF Cons.prems(1) url])
  then have "wf_map w (fold (\<lambda>(url, s). AList.update url s) xs (AList.update k s m))"
    by (rule Cons.IH [OF _ rest])
  then show ?case
    unfolding x by simp
qed

lemma inv_all_sessions:
  assumes "user_inv w u"
  shows "user_inv w (fst (snd (all_sessions w' u)))"
proof (cases "m_state u = Error")
  case True
  with assms show ?thesis by (simp add: all_sessions_def)
next
  case False
  with assms show ?thesis
    by (cases "m_state u")
      (simp_all add: all_sessions_def all_sessions_loop_filter user_inv_def wf_map_filter)
qed

lemma inv_invalidate:
  assumes "user_inv w u"
  shows "user_inv w (fst (invalidate u))"
  using assms by (cases "m_state u") (simp_all add: invalidate_def user_inv_def)

lemma inv_session_for_url:
  assumes "user_inv w u"
  shows "user_inv w (fst (snd (session_for_url w' u url)))"
proof -
  have wf: "wf_map w (AList.delete url (m_sessions u))"
    using assms by (intro wf_map_delete) (simp add: user_inv_def)
  have del: "user_inv w (u\<lparr>m_sessions := AList.delete url (m_sessions u)\<rparr>)"
    using assms wf
    by (cases "m_state u") (auto simp: user_inv_def)
  show ?thesis
    using assms del
    by (simp add: session_for_url_def lock_def split: option.splits)
qed

lemma inv_update_refresh_token:
  assumes "user_inv w u"
  shows "user_inv w (fst (update_refresh_token w' u token))"
proof (cases "m_state u")
  case LoggedOut
  have "wf_map w (fold (\<lambda>(url, s). AList.update url s)
          (filter (resolves w') (m_waiting_sessions u)) (m_sessions u))"
    using assms by (intro wf_map_fold_update wf_map_filter) (simp_all add: user_inv_def)
  with LoggedOut show ?thesis
    by (simp add: update_refresh_token_def revive_loop_fold user_inv_def Let_def)
next
  case Active
  with assms show ?thesis
    by (simp add: update_refresh_token_def user_inv_def Let_def)
next
  case Error
  with assms show ?thesis
    by (simp add: update_refresh_token_def)
qed

lemma inv_log_out:
  assumes "user_inv w u"
  shows "user_inv w (fst (log_out w' u))"
proof (cases "m_is_admin u \<or> m_state u = LoggedOut")
  case True
  with assms show ?thesis
    by (auto simp: log_out_def)
next
  case False
  have "wf_map w (fold (\<lambda>(url, s). AList.update url s)
          (filter (resolves w') (m_sessions u)) (m_waiting_sessions u))"
    using assms by (intro wf_map_fold_update wf_map_filter) (simp_all add: user_inv_def)
  with False show ?thesis
    by (simp add: log_out_def log_out_loop_fold user_inv_def Let_def)
qed

lemma inv_register_session:
  assumes "user_inv w u" and "realm_url w' = realm_url w"
  shows "user_inv w (fst (snd (register_session w' u s)))"
proof -
  have url: "realm_url w s = realm_url w' s"
    using assms(2) by simp
  have a: "wf_map w (AList.update (realm_url w' s) s (m_sessions u))"
    and b: "wf_map w (AList.update (realm_url w' s) s (m_waiting_sessions u))"
    using assms(1) by (simp_all add: user_inv_def wf_map_update [OF _ url])
  show ?thesis
    using assms(1) a b
    by (cases "m_state u") (simp_all add: register_session_def user_inv_def Let_def)
qed

text \<open>
  X1. The constructor establishes the invariant and every member function keeps it,
  whatever has happened to the sessions between two calls: the world \<open>w'\<close> of the call
  may differ from \<open>w\<close> in everything but the realm URLs.
\<close>

theorem user_inv_preserved:
  assumes "user_inv w u" and "realm_url w' = realm_url w"
  shows "user_inv w (fst (SyncUser token identity server_url is_admin))
         \<and> user_inv w (fst (snd (all_sessions w' u)))
         \<and> user_inv w (fst (snd (session_for_url w' u url)))
         \<and> user_inv w (fst (update_refresh_token w' u token))
         \<and> user_inv w (fst (log_out w' u))
         \<and> user_inv w (fst (invalidate u))
         \<and> user_inv w (fst (snd (register_session w' u s)))"
proof -
  have "user_inv w (fst (SyncUser token identity server_url is_admin))"
    by (simp add: SyncUser_def user_inv_def)
  then show ?thesis
    using inv_all_sessions [OF assms(1)] inv_session_for_url [OF assms(1)]
      inv_update_refresh_token [OF assms(1)] inv_log_out [OF assms(1)]
      inv_invalidate [OF assms(1)] inv_register_session [OF assms]
    by (intro conjI)
qed

theorem user_inv_preserved_witness:
  "user_inv world0 user_active
   \<and> user_inv world0 (fst (log_out world0 user_active))
   \<and> user_inv world0 (fst (snd (register_session world0 user_active 4)))
   \<and> user_inv world0 (fst (update_refresh_token world0 user_logged_out ''tok2''))"
proof -
  have a: "user_inv world0 user_active"
    by (simp add: user_inv_def user_active_def wf_map_def world0_def)
  have b: "user_inv world0 user_logged_out"
    by (simp add: user_inv_def user_logged_out_def wf_map_def world0_def)
  note p = user_inv_preserved [OF a refl, of "''tok2''" "''id''" None False "''a''" 4]
  note q = user_inv_preserved [OF b refl, of "''tok2''" "''id''" None False "''a''" 4]
  from p have p1: "user_inv world0 (fst (log_out world0 user_active))"
    and p2: "user_inv world0 (fst (snd (register_session world0 user_active 4)))"
    by (rule conjunct1 [OF conjunct2 [OF conjunct2 [OF conjunct2 [OF conjunct2]]]],
        rule conjunct2 [OF conjunct2 [OF conjunct2 [OF conjunct2 [OF conjunct2 [OF conjunct2]]]]])
  from q have q1: "user_inv world0 (fst (update_refresh_token world0 user_logged_out ''tok2''))"
    by (rule conjunct1 [OF conjunct2 [OF conjunct2 [OF conjunct2]]])
  from a p1 p2 q1 show ?thesis
    by (intro conjI)
qed

text \<open>
  X2. What does hold of the Error state: \<open>update_refresh_token\<close>, \<open>invalidate\<close>,
  \<open>register_session\<close>, \<open>all_sessions\<close> and \<open>session_for_url\<close> leave a user in the
  Error state in it, and so does \<open>log_out\<close> on an admin user.
\<close>

theorem Error_kept_by_guarded_paths:
  assumes "m_state u = Error"
  shows "fst (update_refresh_token w u t) = u
         \<and> m_state (fst (invalidate u)) = Error
         \<and> fst (snd (all_sessions w u)) = u
         \<and> fst (snd (session_for_url w u url)) = u
         \<and> fst (snd (register_session w u s)) = u
         \<and> (m_is_admin u \<longrightarrow> fst (log_out w u) = u)"
  using assms
  by (simp add: update_refresh_token_def invalidate_def all_sessions_def session_for_url_def
      register_session_def log_out_def Let_def)

theorem Error_kept_by_guarded_paths_witness:
  "m_state (fst (invalidate user_active)) = Error
   \<and> m_state (fst (update_refresh_token world0 (fst (invalidate user_active)) ''tok2'')) = Error
   \<and> m_state (fst (snd (register_session world0 (fst (invalidate user_active)) 4))) = Error
   \<and> m_state (fst (log_out world0 (fst (invalidate (user_active\<lparr>m_is_admin := True\<rparr>))))) = Error"
proof -
  have a: "m_state (fst (invalidate user_active)) = Error"
    and b: "m_state (fst (invalidate (user_active\<lparr>m_is_admin := True\<rparr>))) = Error"
    and c: "m_is_admin (fst (invalidate (user_active\<lparr>m_is_admin := True\<rparr>)))"
    by (simp_all add: invalidate_def)
  show ?thesis
    using a b c
      Error_kept_by_guarded_paths [OF a, of world0 "''tok2''" "''a''" 4]
      Error_kept_by_guarded_paths [OF b, of world0 "''tok2''" "''a''" 4]
    by simp
qed

end
